theory Spec2Isabelle
  imports Complex_Main
begin

section \<open>The Brunel network script (brunel.ipynb)\<close>

text \<open>
  The notebook is a straight-line Python script. In the calibration cells Python floats
  and numpy doubles are read as real numbers: a formula there is the exact value of the
  expression the script evaluates, without rounding. The firing rates of cell 23 are
  computed in double arithmetic, every operation rounded. What is outside the reals is
  an explicit outcome:
  \<^item> \<open>ZeroDivisionError\<close>: a division of a Python float (or int) by zero raises;
  \<^item> \<open>NonFinite\<close>: a division of a numpy double by zero gives inf or nan and the script
    goes on with a value that no real number describes;
  \<^item> \<open>InvalidDegreeError\<close>, \<open>EngineError\<close>: failures reported by the simulation engine.
\<close>

datatype error = ZeroDivisionError | NonFinite | InvalidDegreeError | EngineError

subsection \<open>Cell 2: Lambert W and the PSP norm\<close>






subsection \<open>Cells 4 to 9: parameters and calibration\<close>

record config =
  cfg_simtime :: real
  cfg_g :: real
  cfg_eta :: real
  cfg_epsilon :: real
  cfg_order :: nat
  cfg_N_rec :: nat
  cfg_tauSyn :: real
  cfg_tauMem :: real
  cfg_CMem :: real
  cfg_theta :: real
  cfg_J :: real

text \<open>The values the notebook assigns.\<close>

definition brunel :: config where
  "brunel = \<lparr> cfg_simtime = 1000, cfg_g = 9 / 2, cfg_eta = 9 / 10, cfg_epsilon = 1 / 10,
     cfg_order = 2500, cfg_N_rec = 50, cfg_tauSyn = 1 / 2, cfg_tauMem = 20,
     cfg_CMem = 250, cfg_theta = 20, cfg_J = 1 / 10 \<rparr>"

definition NE :: "config \<Rightarrow> nat" where
  "NE c = 4 * cfg_order c"

definition NI :: "config \<Rightarrow> nat" where
  "NI c = 1 * cfg_order c"


text \<open>Python's \<open>int(x)\<close> on a float truncates towards zero.\<close>

definition py_int :: "real \<Rightarrow> int" where
  "py_int x = (if 0 \<le> x then \<lfloor>x\<rfloor> else \<lceil>x\<rceil>)"

definition CE :: "config \<Rightarrow> int" where
  "CE c = py_int (cfg_epsilon c * real (NE c))"

definition CI :: "config \<Rightarrow> int" where
  "CI c = py_int (cfg_epsilon c * real (NI c))"

definition C_tot :: "config \<Rightarrow> int" where
  "C_tot c = CI c + CE c"

text \<open>
  Cell 8: \<open>J_ex = J / J_unit\<close>, \<open>J_in = -g * J_ex\<close>. \<open>J_unit\<close> is a numpy double, so the
  division does not raise on zero.
\<close>

definition weights :: "real \<Rightarrow> real \<Rightarrow> real \<Rightarrow> error + real \<times> real" where
  "weights J g J_unit =
    (if J_unit = 0 then Inl NonFinite
     else let J_ex = J / J_unit; J_in = - g * J_ex in Inr (J_ex, J_in))"

text \<open>
  Cell 9: \<open>nu_th\<close>, \<open>nu_ex\<close>, \<open>p_rate\<close>. The divisor contains the numpy doubles \<open>J_ex\<close> and
  \<open>exp(1)\<close>, so this division does not raise on zero either.
\<close>

record drive =
  nu_th :: real
  nu_ex :: real
  p_rate :: real


record calibrated =
  J_unit :: real
  J_ex :: real
  J_in :: real
  rates :: drive


subsection \<open>Double arithmetic\<close>

text \<open>
  A double is a real number with a significand of 53 bits. \<open>fl x\<close> is the double nearest
  to \<open>x\<close>, a tie going to the even significand (\<open>rne\<close> rounds to the nearest integer in
  that way): the result of an arithmetic operation on doubles is \<open>fl\<close> of the exact result,
  and the conversion of a Python int to a float is \<open>fl\<close> of the int. The exponent range of
  doubles is not modelled: numbers beyond about \<open>1.8e308\<close> (overflow) and below about
  \<open>2.2e-308\<close> (subnormal numbers) are outside the model.
\<close>

definition rne :: "real \<Rightarrow> int" where
  "rne x = (let f = \<lfloor>x\<rfloor>; d = x - of_int f
            in if d < 1 / 2 then f else if 1 / 2 < d then f + 1
               else if even f then f else f + 1)"

definition fl :: "real \<Rightarrow> real" where
  "fl x = (if x = 0 then 0
           else let e = \<lfloor>log 2 \<bar>x\<bar>\<rfloor>
                in of_int (rne (x / 2 powr (of_int e - 52))) * 2 powr (of_int e - 52))"

subsection \<open>Cell 23: firing rates\<close>

text \<open>
  \<open>rate = events / simtime * 1000.0 / N_rec\<close>, evaluated from left to right: an int divided
  by a Python float, a product of floats, and a float divided by an int. The ints are
  converted to doubles; both divisions raise on zero.
\<close>


definition rate :: "int \<Rightarrow> real \<Rightarrow> nat \<Rightarrow> error + real" where
  "rate events simtime n_rec =
    (if simtime = 0 then Inl ZeroDivisionError
     else if n_rec = 0 then Inl ZeroDivisionError
     else Inr (fl (fl (fl (fl (of_int events) / simtime) * 1000) / fl (real n_rec))))"

text \<open>
  The other expression the spec gives for the rate, \<open>events*1000/(simtime*N_rec)\<close> (section 8),
  written from the spec's words and evaluated as Python would: the product of ints is
  exact, the product in the divisor is a product of doubles.
\<close>

definition rate_spec :: "int \<Rightarrow> real \<Rightarrow> nat \<Rightarrow> error + real" where
  "rate_spec events simtime n_rec =
    (if fl (simtime * fl (real n_rec)) = 0 then Inl ZeroDivisionError
     else Inr (fl (fl (of_int (events * 1000)) / fl (simtime * fl (real n_rec)))))"

subsection \<open>The simulation engine\<close>

text \<open>
  The script builds the network through calls to the simulation engine, whose code is
  not part of the notebook. The kernel is the engine's global state: the number of nodes
  created so far (node ids are handed out consecutively from 1) and the connections,
  each a source, a target and the name of its synapse model.
\<close>

type_synonym node = nat

type_synonym connection = "node \<times> node \<times> string"

definition source :: "connection \<Rightarrow> node" where
  "source e = fst e"

definition target :: "connection \<Rightarrow> node" where
  "target e = fst (snd e)"


record kernel =
  n_nodes :: nat
  conns :: "connection list"

definition ResetKernel :: kernel where
  "ResetKernel = \<lparr> n_nodes = 0, conns = [] \<rparr>"

text \<open>
  Modelled from the spec: \<open>nest.Create(model, n)\<close> is the spec's \<open>createPopulation\<close>; it
  returns \<open>n\<close> new nodes as an ordered collection, here the next \<open>n\<close> node ids in creation
  order.
\<close>

definition Create :: "nat \<Rightarrow> kernel \<Rightarrow> node list \<times> kernel" where
  "Create n k = ([n_nodes k + 1 ..< n_nodes k + 1 + n], k\<lparr> n_nodes := n_nodes k + n \<rparr>)"

text \<open>
  Modelled from the spec: \<open>nest.Connect(pre, post, syn_spec=syn)\<close> without a rule is the
  spec's \<open>connectAll\<close>; it connects every node of \<open>pre\<close> to every node of \<open>post\<close> through
  the synapse class \<open>syn\<close>.
\<close>

definition all_to_all_edges :: "node list \<Rightarrow> node list \<Rightarrow> string \<Rightarrow> connection list" where
  "all_to_all_edges pre post syn = concat (map (\<lambda>t. map (\<lambda>s. (s, t, syn)) pre) post)"

definition Connect_all :: "node list \<Rightarrow> node list \<Rightarrow> string \<Rightarrow> kernel \<Rightarrow> kernel" where
  "Connect_all pre post syn k = k\<lparr> conns := conns k @ all_to_all_edges pre post syn \<rparr>"

text \<open>
  Modelled from the spec: the rule \<open>fixed_indegree\<close> of \<open>nest.Connect\<close> is the spec's
  \<open>connectFixedInDegree\<close>; the engine code that checks the in-degree and draws the sources
  is missing. By the spec, the call fails with \<open>InvalidDegreeError\<close> when the in-degree
  exceeds the number of sources, before any edge is created; otherwise every target
  receives the sources of its own draw of \<open>indegree\<close> distinct source neurons. The random
  draw is a parameter: \<open>dr t k S\<close> is the draw of \<open>k\<close> sources from \<open>S\<close> for target \<open>t\<close>,
  and \<open>valid_draw\<close> says what the spec requires of it. The spec names no outcome for a
  negative in-degree, for which no draw exists; the model reports an engine error.
  An exception leaves the kernel as it is.
\<close>

type_synonym draw = "node \<Rightarrow> nat \<Rightarrow> node list \<Rightarrow> node list"

text \<open>
  Modelled from the spec: a draw gives every target \<open>k\<close> distinct neurons of the source
  population (sampling without replacement within one target's draw).
\<close>

definition valid_draw :: "draw \<Rightarrow> bool" where
  "valid_draw dr \<longleftrightarrow>
    (\<forall>t k S. k \<le> length S \<and> distinct S \<longrightarrow>
       length (dr t k S) = k \<and> distinct (dr t k S) \<and> set (dr t k S) \<subseteq> set S)"

definition fixed_indegree_edges ::
  "draw \<Rightarrow> node list \<Rightarrow> node list \<Rightarrow> nat \<Rightarrow> string \<Rightarrow> connection list" where
  "fixed_indegree_edges dr pre post k syn =
     concat (map (\<lambda>t. map (\<lambda>s. (s, t, syn)) (dr t k pre)) post)"

text \<open>
  Modelled from the spec: \<open>connectFixedInDegree\<close> fails with \<open>InvalidDegreeError\<close> if the
  in-degree exceeds the number of sources, before any edge is created.
\<close>

definition Connect_fixed_indegree ::
  "draw \<Rightarrow> node list \<Rightarrow> node list \<Rightarrow> int \<Rightarrow> string \<Rightarrow> kernel \<Rightarrow> error option \<times> kernel" where
  "Connect_fixed_indegree dr pre post indegree syn k =
     (if int (length pre) < indegree then (Some InvalidDegreeError, k)
      else if indegree < 0 then (Some EngineError, k)
      else (None, k\<lparr> conns := conns k @
                       fixed_indegree_edges dr pre post (nat indegree) syn \<rparr>))"


text \<open>
  The spec asks for distinct sources (\<open>valid_draw\<close>). The notebook passes only the rule and
  the in-degree to \<open>nest.Connect\<close> (cells 17 and 18) and nothing that asks for distinct
  sources; the engine then picks each of the \<open>k\<close> sources of a target on its own from the
  source population, so that a source can be picked more than once. \<open>rng t i\<close> is the
  random number behind the \<open>i\<close>-th pick for target \<open>t\<close>, and \<open>rng_draw rng\<close> is the draw that
  this random stream gives; every list of \<open>k\<close> sources is the draw of some stream.
\<close>

definition rng_draw :: "(node \<Rightarrow> nat \<Rightarrow> nat) \<Rightarrow> draw" where
  "rng_draw rng t k S =
     (if S = [] then [] else map (\<lambda>i. S ! (rng t i mod length S)) [0 ..< k])"

text \<open>A random stream to run the model on: every number comes twice in a row.\<close>

definition pair_rng :: "node \<Rightarrow> nat \<Rightarrow> nat" where
  "pair_rng t i = i div 2"


subsection \<open>Cells 12 to 18: building the network\<close>

record network =
  nodes_ex :: "node list"
  nodes_in :: "node list"
  noise :: "node list"
  espikes :: "node list"
  ispikes :: "node list"

text \<open>Cell 12, after \<open>nest.ResetKernel()\<close> of cell 2.\<close>

definition create_nodes :: "config \<Rightarrow> kernel \<Rightarrow> network \<times> kernel" where
  "create_nodes c k0 =
    (let (n_ex, k1) = Create (NE c) k0;
         (n_in, k2) = Create (NI c) k1;
         (ns, k3) = Create 1 k2;
         (es, k4) = Create 1 k3;
         (is, k5) = Create 1 k4
     in (\<lparr> nodes_ex = n_ex, nodes_in = n_in, noise = ns, espikes = es, ispikes = is \<rparr>, k5))"

text \<open>
  Cells 15 and 16: the Poisson generator to every neuron, and the first \<open>N_rec\<close> neurons of
  each population to its recorder, all with the synapse model \<open>excitatory\<close>.
\<close>

definition connect_devices :: "config \<Rightarrow> network \<Rightarrow> kernel \<Rightarrow> kernel" where
  "connect_devices c net k0 =
    (let k1 = Connect_all (noise net) (nodes_ex net) ''excitatory'' k0;
         k2 = Connect_all (noise net) (nodes_in net) ''excitatory'' k1;
         k3 = Connect_all (take (cfg_N_rec c) (nodes_ex net)) (espikes net) ''excitatory'' k2;
         k4 = Connect_all (take (cfg_N_rec c) (nodes_in net)) (ispikes net) ''excitatory'' k3
     in k4)"

text \<open>Cells 17 and 18: the two fixed in-degree projections onto all neurons.\<close>

definition connect_network :: "draw \<Rightarrow> config \<Rightarrow> network \<Rightarrow> kernel \<Rightarrow> error option \<times> kernel" where
  "connect_network dr c net k0 =
    (case Connect_fixed_indegree dr (nodes_ex net) (nodes_ex net @ nodes_in net) (CE c)
            ''excitatory'' k0 of
       (Some e, k1) \<Rightarrow> (Some e, k1)
     | (None, k1) \<Rightarrow>
         Connect_fixed_indegree dr (nodes_in net) (nodes_ex net @ nodes_in net) (CI c)
           ''inhibitory'' k1)"

definition devices :: "config \<Rightarrow> network \<times> kernel" where
  "devices c = (let (net, k) = create_nodes c ResetKernel in (net, connect_devices c net k))"

definition build :: "draw \<Rightarrow> config \<Rightarrow> error option \<times> kernel" where
  "build dr c = (let (net, k) = devices c in connect_network dr c net k)"

text \<open>The connections that cells 17 and 18 added to the kernel left by cell 16.\<close>

definition topology_edges :: "draw \<Rightarrow> config \<Rightarrow> connection list" where
  "topology_edges dr c = drop (length (conns (snd (devices c)))) (conns (snd (build dr c)))"


text \<open>The sources in \<open>pop\<close> of the connections onto \<open>t\<close>, one entry for each connection.\<close>

definition sources_of :: "kernel \<Rightarrow> node list \<Rightarrow> node \<Rightarrow> node list" where
  "sources_of k pop t =
     map source (filter (\<lambda>e. target e = t \<and> source e \<in> set pop) (conns k))"

subsection \<open>Cell 24: synapse counts\<close>




subsection \<open>The connections of each group of cells\<close>

text \<open>
  The connections that the cells add to the kernel, written with the node ids that cell 12
  hands out: excitatory neurons \<open>1 .. NE\<close>, inhibitory neurons \<open>NE+1 .. NE+NI\<close>, then the
  Poisson generator and the two recorders. \<open>device_conns\<close> are those of cells 15 and 16,
  \<open>ex_edges\<close> those of cell 17 and \<open>in_edges\<close> those of cell 18.
\<close>

definition device_conns :: "config \<Rightarrow> connection list" where
  "device_conns c =
     all_to_all_edges [NE c + NI c + 1] [1 ..< NE c + 1] ''excitatory'' @
     all_to_all_edges [NE c + NI c + 1] [NE c + 1 ..< NE c + NI c + 1] ''excitatory'' @
     all_to_all_edges (take (cfg_N_rec c) [1 ..< NE c + 1]) [NE c + NI c + 2] ''excitatory'' @
     all_to_all_edges (take (cfg_N_rec c) [NE c + 1 ..< NE c + NI c + 1]) [NE c + NI c + 3]
       ''excitatory''"

definition ex_edges :: "draw \<Rightarrow> config \<Rightarrow> connection list" where
  "ex_edges dr c =
     fixed_indegree_edges dr [1 ..< NE c + 1] ([1 ..< NE c + 1] @ [NE c + 1 ..< NE c + NI c + 1])
       (nat (CE c)) ''excitatory''"

definition in_edges :: "draw \<Rightarrow> config \<Rightarrow> connection list" where
  "in_edges dr c =
     fixed_indegree_edges dr [NE c + 1 ..< NE c + NI c + 1]
       ([1 ..< NE c + 1] @ [NE c + 1 ..< NE c + NI c + 1]) (nat (CI c)) ''inhibitory''"

subsection \<open>A Taylor polynomial of the exponential\<close>


section \<open>Properties\<close>

subsection \<open>The lower branch of Lambert W\<close>

















subsection \<open>The PSP norm at the reference configuration\<close>



















subsection \<open>Calibration of the script's configuration\<close>


lemma CE_brunel: "CE brunel = 1000"
  by (simp add: CE_def NE_def brunel_def py_int_def)

lemma CI_brunel: "CI brunel = 250"
  by (simp add: CI_def NI_def brunel_def py_int_def)


subsection \<open>Rounding to doubles\<close>

lemma rne_err: "\<bar>of_int (rne x) - x\<bar> \<le> 1 / 2"
proof -
  have "of_int \<lfloor>x\<rfloor> \<le> x" "x < of_int \<lfloor>x\<rfloor> + 1" by linarith+
  then show ?thesis by (auto simp: rne_def Let_def)
qed

lemma rne_of_int: "rne (of_int k) = k"
  by (simp add: rne_def)

lemma two_powr_nat: "(2::real) powr (real k) = 2 ^ k"
  by (rule powr_realpow) simp

lemma fl_eval:
  assumes "2 ^ n \<le> \<bar>x\<bar>" "\<bar>x\<bar> < 2 ^ Suc n" "n \<le> 52"
  shows "fl x = of_int (rne (x * 2 ^ (52 - n))) / 2 ^ (52 - n)"
proof -
  have "0 < \<bar>x\<bar>" using assms(1) zero_less_power [of "2::real" n] by linarith
  then have x0: "x \<noteq> 0" by simp
  have "real_of_int (int n) = real n" "real_of_int (int n + 1) = real (Suc n)" by simp_all
  then have "(2::real) powr (of_int (int n)) \<le> \<bar>x\<bar> \<and> \<bar>x\<bar> < 2 powr (of_int (int n + 1))"
    using assms(1,2) by (simp only: two_powr_nat)
  then have e: "\<lfloor>log 2 \<bar>x\<bar>\<rfloor> = int n"
    using x0 by (subst floor_log_eq_powr_iff) simp_all
  have "real n - (52::real) = - real (52 - n)" using assms(3) by simp
  then have q: "(2::real) powr (real n - 52) = 1 / 2 ^ (52 - n)"
    by (simp only: powr_minus_divide two_powr_nat)
  show ?thesis using x0 by (simp add: fl_def e q)
qed

lemma fl_rel_err: "\<bar>fl x - x\<bar> \<le> \<bar>x\<bar> / 2 ^ 53"
proof (cases "x = 0")
  case True
  then show ?thesis by (simp add: fl_def)
next
  case False
  define e where "e = \<lfloor>log 2 \<bar>x\<bar>\<rfloor>"
  define q :: real where "q = 2 powr (of_int e - 52)"
  define c :: real where "c = 2 ^ 52"
  have q0: "0 < q" by (simp add: q_def)
  have c0: "0 < c" by (simp add: c_def)
  have c53: "(2::real) ^ 53 = 2 * c" by (simp add: c_def)
  have "(2::real) powr (real 52) = 2 ^ 52" by (rule powr_realpow) simp
  then have cp: "c = 2 powr 52" by (simp add: c_def)
  have "2 powr (of_int e) \<le> \<bar>x\<bar>"
    using False floor_log_eq_powr_iff [of "\<bar>x\<bar>" 2 e] by (simp add: e_def)
  moreover have "q * c = 2 powr (of_int e)"
  proof -
    have "q * c = 2 powr (of_int e - 52) * 2 powr 52" by (simp only: q_def cp)
    also have "\<dots> = 2 powr ((of_int e - 52) + 52)" by (simp only: powr_add)
    also have "(of_int e - 52) + (52::real) = of_int e" by simp
    finally show ?thesis .
  qed
  ultimately have lo: "q * c \<le> \<bar>x\<bar>" by simp
  have "fl x = of_int (rne (x / q)) * q"
    using False by (simp add: fl_def Let_def e_def q_def)
  then have "fl x - x = (of_int (rne (x / q)) - x / q) * q"
    using q0 by (simp add: field_simps)
  then have "\<bar>fl x - x\<bar> = \<bar>of_int (rne (x / q)) - x / q\<bar> * q"
    using q0 by (simp add: abs_mult)
  also have "\<dots> \<le> (1 / 2) * q"
    using rne_err [of "x / q"] q0 by (intro mult_right_mono) simp_all
  also have "\<dots> = (q * c) / (2 * c)" using c0 by simp
  also have "\<dots> \<le> \<bar>x\<bar> / (2 * c)"
    using lo c0 by (intro divide_right_mono) simp_all
  finally show ?thesis unfolding c53 .
qed

lemma fl_rel:
  obtains d where "\<bar>d\<bar> \<le> 1 / 2 ^ 53" "fl x = x * (1 + d)"
proof (cases "x = 0")
  case True
  show ?thesis by (rule that [of 0]) (simp_all add: True fl_def)
next
  case False
  define d where "d = (fl x - x) / x"
  have "\<bar>d\<bar> = \<bar>fl x - x\<bar> / \<bar>x\<bar>" by (simp add: d_def)
  also have "\<dots> \<le> (\<bar>x\<bar> / 2 ^ 53) / \<bar>x\<bar>"
    using fl_rel_err [of x] by (intro divide_right_mono) simp_all
  also have "\<dots> = 1 / 2 ^ 53" using False by simp
  finally have 1: "\<bar>d\<bar> \<le> 1 / 2 ^ 53" .
  have 2: "fl x = x * (1 + d)" using False by (simp add: d_def field_simps)
  show ?thesis by (rule that [OF 1 2])
qed

lemma fl_int_exact:
  assumes "\<bar>m\<bar> < 2 ^ 53"
  shows "fl (of_int m) = of_int m"
proof (cases "m = 0")
  case True
  then show ?thesis by (simp add: fl_def)
next
  case False
  define e where "e = \<lfloor>log 2 \<bar>of_int m :: real\<bar>\<rfloor>"
  have m1: "1 \<le> \<bar>of_int m :: real\<bar>" using False by (simp flip: of_int_abs)
  have mu: "\<bar>of_int m :: real\<bar> < 2 ^ 53"
    using assms by (metis of_int_abs of_int_less_numeral_power_cancel_iff)
  have b: "2 powr (of_int e) \<le> \<bar>of_int m :: real\<bar>" "\<bar>of_int m :: real\<bar> < 2 powr (of_int (e + 1))"
    using m1 floor_log_eq_powr_iff [of "\<bar>of_int m :: real\<bar>" 2 e] by (simp_all add: e_def)
  have e0: "0 \<le> e" using m1 by (simp add: e_def)
  have "(2::real) powr (real 53) = 2 ^ 53" by (rule powr_realpow) simp
  then have "(2::real) powr (of_int e) < 2 powr (real 53)"
    using b(1) mu by (simp only:)
  then have "real_of_int e < real 53"
    by (rule powr_less_cancel) simp
  then have e52: "e \<le> 52" by simp
  define k where "k = nat (52 - e)"
  have "of_int e - (52::real) = - real k" using e52 by (simp add: k_def)
  then have q: "(2::real) powr (of_int e - 52) = 1 / 2 ^ k"
    by (simp only: powr_minus_divide two_powr_nat)
  have "of_int m / (1 / 2 ^ k) = (of_int (m * 2 ^ k) :: real)" by simp
  then have "rne (of_int m / (1 / 2 ^ k)) = m * 2 ^ k"
    by (simp only: rne_of_int)
  then show ?thesis
    using False by (simp add: fl_def e_def [symmetric] q)
qed



subsection \<open>The PSP norm\<close>






subsection \<open>Weights\<close>

text \<open>
  Claim C5. For every \<open>J_unit > 0\<close>, \<open>J > 0\<close> and \<open>g > 0\<close> the weight calibration gives
  \<open>J_ex = J / J_unit\<close> and \<open>J_in = -g * J_ex\<close>; \<open>J_ex\<close> is positive, \<open>J_in\<close> is negative,
  and \<open>|J_in| = g * |J_ex|\<close>.
\<close>

theorem weights_sign:
  assumes "0 < J_u" "0 < J" "0 < g"
  shows "weights J g J_u = Inr (J / J_u, - g * (J / J_u)) \<and>
         0 < J / J_u \<and> - g * (J / J_u) < 0 \<and>
         \<bar>- g * (J / J_u)\<bar> = g * \<bar>J / J_u\<bar>"
  using assms by (simp add: weights_def Let_def abs_mult mult_pos_pos)

theorem weights_sign_witness:
  "weights 1 (9 / 2) 2 = Inr (1 / 2, - (9 / 2) * (1 / 2)) \<and>
   (0::real) < 1 / 2 \<and> - (9 / 2) * (1 / 2) < (0::real) \<and>
   \<bar>- (9 / 2) * (1 / 2)\<bar> = (9 / 2) * \<bar>1 / 2 :: real\<bar>"
  using weights_sign [of 2 1 "9 / 2"] by simp

subsection \<open>Drive\<close>



subsection \<open>Firing rates\<close>

lemma prod3_bound:
  fixes d1 d2 d3 e :: real
  assumes "\<bar>d1\<bar> \<le> e" "\<bar>d2\<bar> \<le> e" "\<bar>d3\<bar> \<le> e" "e \<le> 1 / 8"
  shows "\<bar>(1 + d1) * (1 + d2) * (1 + d3) - 1\<bar> \<le> 4 * e"
proof -
  have e0: "0 \<le> e" using assms(1) by linarith
  have "\<bar>d1 * d2\<bar> \<le> e * e" using assms by (simp add: abs_mult mult_mono)
  then have p12: "- (e * e) \<le> d1 * d2" "d1 * d2 \<le> e * e" by (simp_all add: abs_le_iff)
  have "\<bar>d1 * d3\<bar> \<le> e * e" using assms by (simp add: abs_mult mult_mono)
  then have p13: "- (e * e) \<le> d1 * d3" "d1 * d3 \<le> e * e" by (simp_all add: abs_le_iff)
  have q23: "\<bar>d2 * d3\<bar> \<le> e * e" using assms by (simp add: abs_mult mult_mono)
  then have p23: "- (e * e) \<le> d2 * d3" "d2 * d3 \<le> e * e" by (simp_all add: abs_le_iff)
  have "\<bar>d1 * (d2 * d3)\<bar> = \<bar>d1\<bar> * \<bar>d2 * d3\<bar>" by (simp only: abs_mult)
  also have "\<dots> \<le> e * (e * e)" using q23 assms(1) e0 by (intro mult_mono) simp_all
  finally have "\<bar>d1 * (d2 * d3)\<bar> \<le> e * (e * e)" .
  then have p123: "- (e * (e * e)) \<le> d1 * (d2 * d3)" "d1 * (d2 * d3) \<le> e * (e * e)"
    by (simp_all add: abs_le_iff)
  have b: "- e \<le> d1" "d1 \<le> e" "- e \<le> d2" "d2 \<le> e" "- e \<le> d3" "d3 \<le> e"
    using assms(1-3) by (simp_all add: abs_le_iff)
  have "e * e \<le> e * (1 / 8)" using assms(4) e0 by (rule mult_left_mono)
  then have ee: "e * e \<le> e / 8" by simp
  have "e * (e * e) \<le> e * (e / 8)" using ee e0 by (rule mult_left_mono)
  also have "\<dots> = (e * e) / 8" by simp
  also have "\<dots> \<le> e / 8" using ee e0 by simp
  finally have eee: "e * (e * e) \<le> e / 8" .
  have eq: "(1 + d1) * (1 + d2) * (1 + d3) - 1 =
      d1 + d2 + d3 + d1 * d2 + d1 * d3 + d2 * d3 + d1 * (d2 * d3)"
    by (simp add: algebra_simps)
  show ?thesis
    unfolding eq abs_le_iff using b p12 p13 p23 p123 ee eee e0 by linarith
qed

lemma fl_nat_exact:
  assumes "n < 2 ^ 53"
  shows "fl (real n) = real n"
proof -
  have "\<bar>int n\<bar> < 2 ^ 53" using assms by (simp add: nat_less_numeral_power_cancel_iff flip: of_nat_less_iff)
  from fl_int_exact [OF this] show ?thesis by simp
qed

lemma rate_error:
  assumes "0 \<le> events" "events < 2 ^ 53" "0 < n_rec" "n_rec < 2 ^ 53" "0 < simtime"
  shows "\<exists>r. rate events simtime n_rec = Inr r \<and>
           \<bar>r - of_int events * 1000 / (simtime * real n_rec)\<bar>
             \<le> (of_int events * 1000 / (simtime * real n_rec)) / 2 ^ 51"
proof -
  define E :: real where "E = of_int events"
  define N :: real where "N = real n_rec"
  define x where "x = E * 1000 / (simtime * N)"
  have E0: "0 \<le> E" using assms(1) by (simp add: E_def)
  have N0: "0 < N" using assms(3) by (simp add: N_def)
  have x0: "0 \<le> x" using E0 N0 assms(5) by (simp add: x_def)
  have fE: "fl (of_int events) = E"
    unfolding E_def using assms(1,2) by (intro fl_int_exact) simp
  have fN: "fl (real n_rec) = N"
    unfolding N_def using assms(4) by (rule fl_nat_exact)
  define q1 where "q1 = fl (E / simtime)"
  define q2 where "q2 = fl (q1 * 1000)"
  define r where "r = fl (q2 / N)"
  obtain d1 where d1: "\<bar>d1\<bar> \<le> 1 / 2 ^ 53" "q1 = E / simtime * (1 + d1)"
    unfolding q1_def by (rule fl_rel)
  obtain d2 where d2: "\<bar>d2\<bar> \<le> 1 / 2 ^ 53" "q2 = q1 * 1000 * (1 + d2)"
    unfolding q2_def by (rule fl_rel)
  obtain d3 where d3: "\<bar>d3\<bar> \<le> 1 / 2 ^ 53" "r = q2 / N * (1 + d3)"
    unfolding r_def by (rule fl_rel)
  have r: "rate events simtime n_rec = Inr r"
    using assms(3,5) by (simp add: rate_def fE fN r_def q2_def q1_def)
  have "r = E / simtime * (1 + d1) * 1000 * (1 + d2) / N * (1 + d3)"
    by (simp only: d3(2) d2(2) d1(2))
  also have "\<dots> = x * ((1 + d1) * (1 + d2) * (1 + d3))"
    by (simp add: x_def)
  finally have "r - x = x * ((1 + d1) * (1 + d2) * (1 + d3) - 1)"
    by (simp add: algebra_simps)
  then have "\<bar>r - x\<bar> = x * \<bar>(1 + d1) * (1 + d2) * (1 + d3) - 1\<bar>"
    using x0 by (simp add: abs_mult)
  also have "\<dots> \<le> x * (4 * (1 / 2 ^ 53))"
    using x0 by (intro mult_left_mono prod3_bound d1(1) d2(1) d3(1)) simp_all
  also have "\<dots> = x / 2 ^ 51" by simp
  finally have "\<bar>r - x\<bar> \<le> x / 2 ^ 51" .
  with r show ?thesis unfolding x_def E_def N_def by blast
qed

lemma fl_2080: "fl 2080 = 2080"
  using fl_int_exact [of 2080] by simp

lemma fl_50: "fl 50 = 50"
  using fl_int_exact [of 50] by simp

lemma fl_1001: "fl 1001 = 1001"
  using fl_int_exact [of 1001] by simp

lemma fl_1001000: "fl 1001000 = 1001000"
  using fl_int_exact [of 1001000] by simp

lemma fl_2080000: "fl 2080000 = 2080000"
  using fl_int_exact [of 2080000] by simp

lemma fl_50000: "fl 50000 = 50000"
  using fl_int_exact [of 50000] by simp

lemma rate_1001: "rate 1001 1000 50 = Inr (1408782258436833 / 70368744177664)"
proof -
  have 1: "fl (1001 / 1000) = 2254051613498933 / 2251799813685248"
    by (subst fl_eval [where n = 0]) (simp_all add: rne_def Let_def)
  have 2: "fl (281756451687366625 / 281474976710656) = 8804889115230207 / 8796093022208"
    by (subst fl_eval [where n = 9]) (simp_all add: rne_def Let_def)
  have 3: "fl (8804889115230207 / 439804651110400) = 1408782258436833 / 70368744177664"
    by (subst fl_eval [where n = 4]) (simp_all add: rne_def Let_def)
  show ?thesis by (simp add: rate_def fl_1001 fl_50 1 2 3)
qed

lemma rate_spec_1001: "rate_spec 1001 1000 50 = Inr (5635129033747333 / 281474976710656)"
proof -
  have 1: "fl (1001 / 50) = 5635129033747333 / 281474976710656"
    by (subst fl_eval [where n = 4]) (simp_all add: rne_def Let_def)
  show ?thesis by (simp add: rate_spec_def fl_50 fl_50000 fl_1001000 1)
qed

lemma fl_416: "fl (208 / 5) = 5854679515581645 / 140737488355328"
  by (subst fl_eval [where n = 5]) (simp_all add: rne_def Let_def)

lemma rate_2080: "rate 2080 1000 50 = Inr (5854679515581645 / 140737488355328)"
proof -
  have 1: "fl (52 / 25) = 1170935903116329 / 562949953421312"
    by (subst fl_eval [where n = 1]) (simp_all add: rne_def Let_def)
  have 2: "fl (146366987889541125 / 70368744177664) = 2080"
    by (subst fl_eval [where n = 11]) (simp_all add: rne_def Let_def)
  show ?thesis by (simp add: rate_def fl_2080 fl_50 1 2 fl_416)
qed

lemma rate_spec_2080: "rate_spec 2080 1000 50 = Inr (5854679515581645 / 140737488355328)"
  by (simp add: rate_spec_def fl_50 fl_50000 fl_2080000 fl_416)

text \<open>
  Claim C9, as stated: the rate that cell 23 computes equals \<open>events*1000/(simtime*N_rec)\<close>
  for all inputs. In double arithmetic, which is what the spec asks the equality for,
  it does not: for \<open>events = 1001\<close>, \<open>simtime = 1000.0\<close>, \<open>N_rec = 50\<close> cell 23 gives the
  double \<open>1408782258436833 / 2^46\<close> (printed \<open>20.019999999999996\<close>) and the other
  expression gives \<open>5635129033747333 / 2^48\<close> (printed \<open>20.02\<close>), one unit in the last
  place apart.
\<close>

theorem rate_bitwise_example:
  "rate 1001 1000 50 = Inr (1408782258436833 / 70368744177664) \<and>
   rate_spec 1001 1000 50 = Inr (5635129033747333 / 281474976710656) \<and>
   (1408782258436833 / 70368744177664 :: real) \<noteq> 5635129033747333 / 281474976710656"
  by (simp add: rate_1001 rate_spec_1001)

text \<open>
  Claim C9, amended: for every event count \<open>0 \<le> events < 2^53\<close>, every double \<open>simtime\<close>
  with \<open>2^-900 \<le> simtime \<le> 2^900\<close> and every \<open>0 < N_rec < 2^53\<close>, the reporter computes
  \<open>events / simtime * 1000 / N_rec\<close> in double arithmetic without raising, and the
  result differs from the exact \<open>events*1000/(simtime*N_rec)\<close> by a relative error of at
  most \<open>2^-51\<close>; for \<open>events = 2080\<close>, \<open>simtime = 1000.0\<close>, \<open>N_rec = 50\<close> it yields the double
  nearest to \<open>41.6\<close>, and so does \<open>events*1000/(simtime*N_rec)\<close> evaluated in doubles. In
  the stated ranges no intermediate result leaves the exponent range of doubles.
\<close>

theorem rate_rounding:
  assumes "0 \<le> events" "events < 2 ^ 53" "0 < N_rec" "N_rec < 2 ^ 53"
    and "fl simtime = simtime" "1 / 2 ^ 900 \<le> simtime" "simtime \<le> 2 ^ 900"
  shows "(\<exists>r. rate events simtime N_rec = Inr r \<and>
            \<bar>r - of_int events * 1000 / (simtime * real N_rec)\<bar>
              \<le> (of_int events * 1000 / (simtime * real N_rec)) / 2 ^ 51) \<and>
         rate 2080 1000 50 = Inr (fl (416 / 10)) \<and>
         rate_spec 2080 1000 50 = Inr (fl (416 / 10)) \<and>
         fl (416 / 10) = 5854679515581645 / 140737488355328"
proof -
  have "(0::real) < 1 / 2 ^ 900" by simp
  with assms(6) have "0 < simtime" by linarith
  from rate_error [OF assms(1-4) this] show ?thesis
    by (simp add: rate_2080 rate_spec_2080 fl_416)
qed

theorem rate_rounding_witness:
  "(0::int) \<le> 2080 \<and> (2080::int) < 2 ^ 53 \<and> (0::nat) < 50 \<and> (50::nat) < 2 ^ 53 \<and>
   fl 1000 = 1000 \<and> (1 / 2 ^ 900 :: real) \<le> 1000 \<and> (1000::real) \<le> 2 ^ 900 \<and>
   (\<exists>r. rate 2080 1000 50 = Inr r \<and>
        \<bar>r - 2080 * 1000 / (1000 * 50)\<bar> \<le> (2080 * 1000 / (1000 * 50)) / 2 ^ 51) \<and>
   rate 2080 1000 50 = Inr (5854679515581645 / 140737488355328) \<and>
   rate_spec 2080 1000 50 = Inr (5854679515581645 / 140737488355328)"
proof -
  have f: "fl 1000 = 1000" using fl_int_exact [of 1000] by simp
  have lo: "(1 / 2 ^ 900 :: real) \<le> 1000" by simp
  have hi: "(1000::real) \<le> 2 ^ 900" by simp
  have r: "(0::int) \<le> 2080" "(2080::int) < 2 ^ 53" "(0::nat) < 50" "(50::nat) < 2 ^ 53"
    by simp_all
  from rate_rounding [OF r f lo hi] f lo hi show ?thesis by simp
qed

subsection \<open>Connections and counters of the engine\<close>







lemma devices_eq:
  "devices c =
    (\<lparr> nodes_ex = [1 ..< NE c + 1], nodes_in = [NE c + 1 ..< NE c + NI c + 1],
       noise = [NE c + NI c + 1], espikes = [NE c + NI c + 2], ispikes = [NE c + NI c + 3] \<rparr>,
     \<lparr> n_nodes = NE c + NI c + 3, conns = device_conns c \<rparr>)"
  by (simp add: devices_def create_nodes_def Create_def ResetKernel_def connect_devices_def
      Connect_all_def device_conns_def Let_def add.commute add.left_commute numeral_3_eq_3 numeral_2_eq_2)

lemma build_eq:
  assumes "0 \<le> CE c" "CE c \<le> int (NE c)" "0 \<le> CI c" "CI c \<le> int (NI c)"
  shows "build dr c =
    (None, \<lparr> n_nodes = NE c + NI c + 3,
              conns = device_conns c @ ex_edges dr c @ in_edges dr c \<rparr>)"
  using assms
  by (simp add: build_def devices_eq connect_network_def Connect_fixed_indegree_def
      ex_edges_def in_edges_def)

lemma build_ok_degrees:
  assumes "fst (build dr c) = None"
  shows "0 \<le> CE c \<and> CE c \<le> int (NE c) \<and> 0 \<le> CI c \<and> CI c \<le> int (NI c)"
  using assms
  by (auto simp: build_def devices_eq connect_network_def Connect_fixed_indegree_def
      split: if_splits)







lemma topology_edges_eq:
  assumes "0 \<le> CE c" "CE c \<le> int (NE c)" "0 \<le> CI c" "CI c \<le> int (NI c)"
  shows "topology_edges dr c = ex_edges dr c @ in_edges dr c"
  by (simp add: topology_edges_def build_eq [OF assms] devices_eq)




lemma NE_brunel: "NE brunel = 10000" and NI_brunel: "NI brunel = 2500"
  and N_rec_brunel: "cfg_N_rec brunel = 50"
  by (simp_all add: NE_def NI_def brunel_def)

lemma valid_drawD:
  assumes "valid_draw dr" "k \<le> length S" "distinct S"
  shows "length (dr t k S) = k" "distinct (dr t k S)" "set (dr t k S) \<subseteq> set S"
  using assms by (simp_all add: valid_draw_def)

lemma sources_fixed_indegree_edges:
  assumes "distinct post"
  shows "map source (filter (\<lambda>e. target e = t \<and> source e \<in> A)
            (fixed_indegree_edges dr pre post k syn))
         = (if t \<in> set post then filter (\<lambda>s. s \<in> A) (dr t k pre) else [])"
  using assms
proof (induction post)
  case Nil
  then show ?case by (simp add: fixed_indegree_edges_def)
next
  case (Cons p post)
  have blk: "map source (filter (\<lambda>e. target e = t \<and> source e \<in> A)
                (map (\<lambda>s. (s, p, syn)) xs))
             = (if p = t then filter (\<lambda>s. s \<in> A) xs else [])" for xs
    by (induction xs) (auto simp: source_def target_def)
  have step: "fixed_indegree_edges dr pre (p # post) k syn =
      map (\<lambda>s. (s, p, syn)) (dr p k pre) @ fixed_indegree_edges dr pre post k syn"
    by (simp add: fixed_indegree_edges_def)
  from Cons show ?case
    by (auto simp: step blk)
qed

lemma device_conns_ends:
  assumes "e \<in> set (device_conns c)"
  shows "source e = NE c + NI c + 1 \<or> target e = NE c + NI c + 2 \<or> target e = NE c + NI c + 3"
  using assms
  by (auto simp: device_conns_def all_to_all_edges_def source_def target_def)

lemma sources_device_conns:
  assumes "t \<le> NE c + NI c" "\<And>s. s \<in> A \<Longrightarrow> s \<le> NE c + NI c"
  shows "filter (\<lambda>e. target e = t \<and> source e \<in> A) (device_conns c) = []"
proof -
  have "\<not> (target e = t \<and> source e \<in> A)" if "e \<in> set (device_conns c)" for e
    using device_conns_ends [OF that] assms by fastforce
  then show ?thesis by (simp add: filter_empty_conv)
qed

lemma sources_three_parts:
  assumes "distinct post" "t \<in> set post"
    and "filter (\<lambda>e. target e = t \<and> source e \<in> A) D = []"
    and "set (dr t k1 pre1) \<subseteq> A" "set (dr t k2 pre2) \<inter> A = {}"
  shows "map source (filter (\<lambda>e. target e = t \<and> source e \<in> A)
           (D @ fixed_indegree_edges dr pre1 post k1 s1 @
              fixed_indegree_edges dr pre2 post k2 s2)) = dr t k1 pre1"
proof -
  have a: "filter (\<lambda>s. s \<in> A) (dr t k1 pre1) = dr t k1 pre1"
    using assms(4) by (auto simp: filter_id_conv)
  have b: "filter (\<lambda>s. s \<in> A) (dr t k2 pre2) = []"
    using assms(5) by (auto simp: filter_empty_conv)
  show ?thesis
    by (simp add: assms(2,3) sources_fixed_indegree_edges [OF assms(1)] a b)
qed

lemma sources_three_parts':
  assumes "distinct post" "t \<in> set post"
    and "filter (\<lambda>e. target e = t \<and> source e \<in> A) D = []"
    and "set (dr t k1 pre1) \<inter> A = {}" "set (dr t k2 pre2) \<subseteq> A"
  shows "map source (filter (\<lambda>e. target e = t \<and> source e \<in> A)
           (D @ fixed_indegree_edges dr pre1 post k1 s1 @
              fixed_indegree_edges dr pre2 post k2 s2)) = dr t k2 pre2"
proof -
  have a: "filter (\<lambda>s. s \<in> A) (dr t k1 pre1) = []"
    using assms(4) by (auto simp: filter_empty_conv)
  have b: "filter (\<lambda>s. s \<in> A) (dr t k2 pre2) = dr t k2 pre2"
    using assms(5) by (auto simp: filter_id_conv)
  show ?thesis
    by (simp add: assms(2,3) sources_fixed_indegree_edges [OF assms(1)] a b)
qed

lemma length_rng_draw: "k \<le> length S \<Longrightarrow> length (rng_draw rng t k S) = k"
  by (auto simp: rng_draw_def)

lemma set_rng_draw: "set (rng_draw rng t k S) \<subseteq> set S"
  by (auto simp: rng_draw_def)

lemma rng_draw_pair_repeats:
  assumes "S \<noteq> []" "2 \<le> k"
  shows "\<not> distinct (rng_draw pair_rng t k S)"
proof
  assume d: "distinct (rng_draw pair_rng t k S)"
  have l: "length (rng_draw pair_rng t k S) = k" using assms(1) by (simp add: rng_draw_def)
  have "rng_draw pair_rng t k S ! 0 = rng_draw pair_rng t k S ! 1"
    using assms by (simp add: rng_draw_def pair_rng_def)
  moreover have "rng_draw pair_rng t k S ! 0 \<noteq> rng_draw pair_rng t k S ! 1"
    using d l assms(2) by (simp add: distinct_conv_nth)
  ultimately show False by simp
qed

lemma length_fixed_indegree_edges_sized:
  assumes "\<And>t. length (dr t k pre) = k"
  shows "length (fixed_indegree_edges dr pre post k syn) = length post * k"
  using assms by (induction post) (simp_all add: fixed_indegree_edges_def)

lemma in_degree_ex_sized:
  assumes "0 \<le> CE c" "CE c \<le> int (NE c)" "0 \<le> CI c" "CI c \<le> int (NI c)"
    and "1 \<le> t" "t \<le> NE c + NI c"
    and se: "set (dr t (nat (CE c)) [1 ..< NE c + 1]) \<subseteq> set [1 ..< NE c + 1]"
    and "set (dr t (nat (CI c)) [NE c + 1 ..< NE c + NI c + 1])
           \<subseteq> set [NE c + 1 ..< NE c + NI c + 1]"
  shows "sources_of (snd (build dr c)) [1 ..< NE c + 1] t = dr t (nat (CE c)) [1 ..< NE c + 1]"
proof -
  let ?ex = "[1 ..< NE c + 1]" and ?inh = "[NE c + 1 ..< NE c + NI c + 1]"
  have tp: "t \<in> set (?ex @ ?inh)" using assms(5,6) by auto
  have dp: "distinct (?ex @ ?inh)" by auto
  have "set ?inh \<inter> set ?ex = {}" by auto
  with assms(8) have si: "set (dr t (nat (CI c)) ?inh) \<inter> set ?ex = {}" by blast
  have d: "filter (\<lambda>e. target e = t \<and> source e \<in> set ?ex) (device_conns c) = []"
    by (rule sources_device_conns) (use assms(6) in auto)
  have "sources_of (snd (build dr c)) ?ex t =
      map source (filter (\<lambda>e. target e = t \<and> source e \<in> set ?ex)
        (device_conns c @ ex_edges dr c @ in_edges dr c))"
    by (simp only: sources_of_def build_eq [OF assms(1-4)] snd_conv kernel.select_convs)
  also have "\<dots> = dr t (nat (CE c)) ?ex"
    unfolding ex_edges_def in_edges_def
    by (rule sources_three_parts [where dr = dr and t = t, OF dp tp d se si])
  finally show ?thesis .
qed

lemma in_degree_in_sized:
  assumes "0 \<le> CE c" "CE c \<le> int (NE c)" "0 \<le> CI c" "CI c \<le> int (NI c)"
    and "1 \<le> t" "t \<le> NE c + NI c"
    and "set (dr t (nat (CE c)) [1 ..< NE c + 1]) \<subseteq> set [1 ..< NE c + 1]"
    and si: "set (dr t (nat (CI c)) [NE c + 1 ..< NE c + NI c + 1])
           \<subseteq> set [NE c + 1 ..< NE c + NI c + 1]"
  shows "sources_of (snd (build dr c)) [NE c + 1 ..< NE c + NI c + 1] t =
           dr t (nat (CI c)) [NE c + 1 ..< NE c + NI c + 1]"
proof -
  let ?ex = "[1 ..< NE c + 1]" and ?inh = "[NE c + 1 ..< NE c + NI c + 1]"
  have tp: "t \<in> set (?ex @ ?inh)" using assms(5,6) by auto
  have dp: "distinct (?ex @ ?inh)" by auto
  have "set ?ex \<inter> set ?inh = {}" by auto
  with assms(7) have se: "set (dr t (nat (CE c)) ?ex) \<inter> set ?inh = {}" by blast
  have d: "filter (\<lambda>e. target e = t \<and> source e \<in> set ?inh) (device_conns c) = []"
    by (rule sources_device_conns) (use assms(6) in auto)
  have "sources_of (snd (build dr c)) ?inh t =
      map source (filter (\<lambda>e. target e = t \<and> source e \<in> set ?inh)
        (device_conns c @ ex_edges dr c @ in_edges dr c))"
    by (simp only: sources_of_def build_eq [OF assms(1-4)] snd_conv kernel.select_convs)
  also have "\<dots> = dr t (nat (CI c)) ?inh"
    unfolding ex_edges_def in_edges_def
    by (rule sources_three_parts' [where dr = dr and t = t, OF dp tp d se si])
  finally show ?thesis .
qed

lemma in_degrees_rng:
  assumes "0 \<le> CE c" "CE c \<le> int (NE c)" "0 \<le> CI c" "CI c \<le> int (NI c)"
    and "1 \<le> t" "t \<le> NE c + NI c"
  shows "sources_of (snd (build (rng_draw rng) c)) [1 ..< NE c + 1] t =
           rng_draw rng t (nat (CE c)) [1 ..< NE c + 1]"
    and "sources_of (snd (build (rng_draw rng) c)) [NE c + 1 ..< NE c + NI c + 1] t =
           rng_draw rng t (nat (CI c)) [NE c + 1 ..< NE c + NI c + 1]"
    and "length (topology_edges (rng_draw rng) c) =
           (NE c + NI c) * nat (CE c) + (NE c + NI c) * nat (CI c)"
proof -
  let ?ex = "[1 ..< NE c + 1]" and ?inh = "[NE c + 1 ..< NE c + NI c + 1]"
  have ke: "nat (CE c) \<le> length ?ex" using assms(1,2) by simp linarith
  have ki: "nat (CI c) \<le> length ?inh" using assms(3,4) by simp linarith
  show "sources_of (snd (build (rng_draw rng) c)) ?ex t = rng_draw rng t (nat (CE c)) ?ex"
    by (rule in_degree_ex_sized [OF assms set_rng_draw set_rng_draw])
  show "sources_of (snd (build (rng_draw rng) c)) ?inh t = rng_draw rng t (nat (CI c)) ?inh"
    by (rule in_degree_in_sized [OF assms set_rng_draw set_rng_draw])
  have "length (fixed_indegree_edges (rng_draw rng) ?ex (?ex @ ?inh) (nat (CE c)) ''excitatory'')
      = length (?ex @ ?inh) * nat (CE c)"
    by (rule length_fixed_indegree_edges_sized) (rule length_rng_draw [OF ke])
  then have le: "length (ex_edges (rng_draw rng) c) = (NE c + NI c) * nat (CE c)"
    by (simp add: ex_edges_def)
  have "length (fixed_indegree_edges (rng_draw rng) ?inh (?ex @ ?inh) (nat (CI c)) ''inhibitory'')
      = length (?ex @ ?inh) * nat (CI c)"
    by (rule length_fixed_indegree_edges_sized) (rule length_rng_draw [OF ki])
  then have li: "length (in_edges (rng_draw rng) c) = (NE c + NI c) * nat (CI c)"
    by (simp add: in_edges_def)
  show "length (topology_edges (rng_draw rng) c) =
      (NE c + NI c) * nat (CE c) + (NE c + NI c) * nat (CI c)"
    by (simp add: topology_edges_eq [OF assms(1-4)] le li)
qed

lemma brunel_degrees:
  "0 \<le> CE brunel" "CE brunel \<le> int (NE brunel)" "0 \<le> CI brunel" "CI brunel \<le> int (NI brunel)"
  by (simp_all add: CE_brunel CI_brunel NE_brunel NI_brunel)


subsection \<open>Fixed in-degree\<close>




text \<open>
  Claim C4, as stated: the sources of one target's draw are distinct. With the random
  stream \<open>pair_rng\<close> the script builds the network of the notebook's configuration without
  an error, neuron 1 has its 1000 connections from the excitatory population, and their
  sources are not distinct.
\<close>

theorem repeated_sources_example:
  "fst (build (rng_draw pair_rng) brunel) = None \<and>
   1 \<in> set (nodes_ex (fst (devices brunel))) \<union> set (nodes_in (fst (devices brunel))) \<and>
   length (sources_of (snd (build (rng_draw pair_rng) brunel))
             (nodes_ex (fst (devices brunel))) 1) = 1000 \<and>
   \<not> distinct (sources_of (snd (build (rng_draw pair_rng) brunel))
                 (nodes_ex (fst (devices brunel))) 1)"
proof -
  have b: "fst (build (rng_draw pair_rng) brunel) = None"
    by (simp add: build_eq [OF brunel_degrees])
  have nex: "nodes_ex (fst (devices brunel)) = [1 ..< NE brunel + 1]"
    by (simp only: devices_eq fst_conv network.select_convs)
  have m: "1 \<in> set (nodes_ex (fst (devices brunel))) \<union> set (nodes_in (fst (devices brunel)))"
    by (simp add: devices_eq NE_brunel)
  have s: "sources_of (snd (build (rng_draw pair_rng) brunel)) [1 ..< NE brunel + 1] 1 =
      rng_draw pair_rng 1 (nat (CE brunel)) [1 ..< NE brunel + 1]"
    by (rule in_degrees_rng(1) [OF brunel_degrees]) (simp_all add: NE_brunel NI_brunel)
  have ne: "[1 ..< NE brunel + 1] \<noteq> []" by (simp add: NE_brunel)
  have l: "length (rng_draw pair_rng 1 (nat (CE brunel)) [1 ..< NE brunel + 1]) = 1000"
    by (subst length_rng_draw) (simp_all add: CE_brunel NE_brunel)
  have r: "\<not> distinct (rng_draw pair_rng 1 (nat (CE brunel)) [1 ..< NE brunel + 1])"
    by (rule rng_draw_pair_repeats [OF ne]) (simp add: CE_brunel)
  show ?thesis unfolding nex s using b m l r by (simp only: nex simp_thms)
qed

text \<open>
  Claim C4, amended: after topology generation every neuron of either population has
  exactly \<open>CE\<close> incoming connections from the excitatory population and exactly \<open>CI\<close> from
  the inhibitory population, each connection counted and the sources of one target not
  necessarily distinct, and the two connection calls created \<open>(NE+NI)*CE + (NE+NI)*CI\<close>
  edges in total; this for every random stream.
\<close>

theorem in_degree_per_target:
  assumes "fst (build (rng_draw rng) c) = None"
    and "t \<in> set (nodes_ex (fst (devices c))) \<union> set (nodes_in (fst (devices c)))"
  shows "length (sources_of (snd (build (rng_draw rng) c)) (nodes_ex (fst (devices c))) t)
           = nat (CE c) \<and>
         length (sources_of (snd (build (rng_draw rng) c)) (nodes_in (fst (devices c))) t)
           = nat (CI c) \<and>
         length (topology_edges (rng_draw rng) c) =
           (NE c + NI c) * nat (CE c) + (NE c + NI c) * nat (CI c)"
proof -
  let ?ex = "[1 ..< NE c + 1]" and ?inh = "[NE c + 1 ..< NE c + NI c + 1]"
  note deg = build_ok_degrees [OF assms(1)]
  have d: "0 \<le> CE c" "CE c \<le> int (NE c)" "0 \<le> CI c" "CI c \<le> int (NI c)"
    using deg by simp_all
  have nex: "nodes_ex (fst (devices c)) = ?ex" and nin: "nodes_in (fst (devices c)) = ?inh"
    by (simp_all only: devices_eq fst_conv network.select_convs)
  have t: "1 \<le> t" "t \<le> NE c + NI c"
    using assms(2) unfolding nex nin by auto
  have ke: "nat (CE c) \<le> length ?ex" using d by simp linarith
  have ki: "nat (CI c) \<le> length ?inh" using d by simp linarith
  note r = in_degrees_rng [OF d t, of rng]
  show ?thesis
    unfolding nex nin r(1) r(2) using r(3) length_rng_draw [OF ke] length_rng_draw [OF ki]
    by simp
qed

theorem in_degree_per_target_witness:
  "fst (build (rng_draw pair_rng) brunel) = None \<and>
   1 \<in> set (nodes_ex (fst (devices brunel))) \<union> set (nodes_in (fst (devices brunel))) \<and>
   length (sources_of (snd (build (rng_draw pair_rng) brunel))
             (nodes_ex (fst (devices brunel))) 1) = 1000 \<and>
   length (sources_of (snd (build (rng_draw pair_rng) brunel))
             (nodes_in (fst (devices brunel))) 1) = 250 \<and>
   length (topology_edges (rng_draw pair_rng) brunel) = 15625000"
proof -
  have b: "fst (build (rng_draw pair_rng) brunel) = None"
    by (simp add: build_eq [OF brunel_degrees])
  have m: "1 \<in> set (nodes_ex (fst (devices brunel))) \<union> set (nodes_in (fst (devices brunel)))"
    by (simp add: devices_eq NE_brunel)
  from in_degree_per_target [OF b m] b m
  show ?thesis
    by (simp add: CE_brunel CI_brunel NE_brunel NI_brunel)
qed

subsection \<open>Reported synapse counts\<close>






end
